theory Spec2Isabelle
  imports Main "HOL-Library.Word" "HOL-Library.Sublist"
begin

section \<open>Python values used by gitignore\_plugin.py\<close>

text \<open>
  A Python \<open>str\<close> is a sequence of Unicode code points, and the plugin decodes the bytes
  that git prints into such strings.  A \<open>char\<close> of HOL has eight bits only, so a string is
  modelled as the list of its code points; \<open>str\<close> turns an ASCII literal into one.
  Bytes are eight-bit words.
\<close>

type_synonym pystr = "nat list"
type_synonym byte = "8 word"

definition str :: "string \<Rightarrow> pystr" where
  "str s = map of_char s"

text \<open>The exceptions that the plugin's own statements and its library calls can raise.\<close>

datatype error = AssertionError | IndexError | OSError

subsection \<open>Methods of \<open>str\<close>\<close>

text \<open>
  \<open>str.isspace\<close> and \<open>str.strip\<close> use the whitespace table of CPython
  (\<open>_PyUnicode_IsWhitespace\<close>).
\<close>

definition is_space :: "nat \<Rightarrow> bool" where
  "is_space c \<longleftrightarrow>
     (0x09 \<le> c \<and> c \<le> 0x0D) \<or> (0x1C \<le> c \<and> c \<le> 0x20) \<or> c = 0x85 \<or> c = 0xA0 \<or>
     c = 0x1680 \<or> (0x2000 \<le> c \<and> c \<le> 0x200A) \<or> c = 0x2028 \<or> c = 0x2029 \<or>
     c = 0x202F \<or> c = 0x205F \<or> c = 0x3000"

text \<open>\<open>s.isspace()\<close>: at least one character, and all of them whitespace.\<close>

definition str_isspace :: "pystr \<Rightarrow> bool" where
  "str_isspace s \<longleftrightarrow> s \<noteq> [] \<and> list_all is_space s"

text \<open>\<open>s.strip()\<close>: whitespace removed at both ends.\<close>

definition str_strip :: "pystr \<Rightarrow> pystr" where
  "str_strip s = rev (dropWhile is_space (rev (dropWhile is_space s)))"

text \<open>\<open>s.rstrip(chars)\<close>: every trailing character that occurs in \<open>chars\<close> is removed.\<close>

definition str_rstrip :: "pystr \<Rightarrow> pystr \<Rightarrow> pystr" where
  "str_rstrip s chars = rev (dropWhile (\<lambda>c. c \<in> set chars) (rev s))"

text \<open>\<open>s.split(sep)\<close> for a separator of one character; \<open>''.split(sep)\<close> is \<open>['']\<close>.\<close>

primrec str_split :: "pystr \<Rightarrow> nat \<Rightarrow> pystr list" where
  "str_split [] sep = [[]]"
| "str_split (c # cs) sep =
     (if c = sep then [] # str_split cs sep
      else (case str_split cs sep of [] \<Rightarrow> [[c]] | w # ws \<Rightarrow> (c # w) # ws))"

text \<open>
  \<open>s.replace(old, new, 1)\<close>: the leftmost occurrence of \<open>old\<close> is replaced, the rest of the
  string is kept.  An empty \<open>old\<close> matches at position 0.
\<close>

primrec str_replace_first :: "pystr \<Rightarrow> pystr \<Rightarrow> pystr \<Rightarrow> pystr" where
  "str_replace_first [] old new = (if old = [] then new else [])"
| "str_replace_first (c # cs) old new =
     (if prefix old (c # cs) then new @ drop (length old) (c # cs)
      else c # str_replace_first cs old new)"

text \<open>
  \<open>s.replace(old, new)\<close>: every occurrence, scanning from the left without overlap.  An
  empty \<open>old\<close> puts \<open>new\<close> before every character and at the end.
\<close>

function str_replace :: "pystr \<Rightarrow> pystr \<Rightarrow> pystr \<Rightarrow> pystr" where
  "str_replace s old new =
     (if old = [] then concat (map (\<lambda>c. new @ [c]) s) @ new
      else if s = [] then []
      else if prefix old s then new @ str_replace (drop (length old) s) old new
      else hd s # str_replace (tl s) old new)"
  by pat_completeness auto
termination
  by (relation "measure (\<lambda>(s, old, new). length s)") auto

declare str_replace.simps [simp del]

text \<open>\<open>s[i]\<close> for \<open>i \<ge> 0\<close>: IndexError out of range.  \<open>s[i:]\<close> never raises.\<close>

definition str_index :: "pystr \<Rightarrow> nat \<Rightarrow> error + nat" where
  "str_index s i = (if i < length s then Inr (s ! i) else Inl IndexError)"

definition str_from :: "pystr \<Rightarrow> nat \<Rightarrow> pystr" where
  "str_from s i = drop i s"

section \<open>The path normaliser\<close>

datatype platform = Windows | Posix

text \<open>
  \<open>windows_path_to_sublime_path\<close>: \<open>path[1]\<close> raises IndexError on a path shorter than two
  characters, and the assertion fails when that character is not the colon.
\<close>

definition windows_path_to_sublime_path :: "pystr \<Rightarrow> error + pystr" where
  "windows_path_to_sublime_path path =
     (case str_index path 1 of
        Inl e \<Rightarrow> Inl e
      | Inr c \<Rightarrow>
          if c \<noteq> of_char CHR '':'' then Inl AssertionError
          else (case str_index path 0 of
                  Inl e \<Rightarrow> Inl e
                | Inr d \<Rightarrow>
                    let without_colon = d # str_from path 2
                    in Inr (str_replace without_colon (str [CHR 0x5C]) (str ''/''))))"

text \<open>
  The conversion that \<open>update_file_exclude_patterns\<close> applies to every ignored path:
  \<open>if platform.system() == 'Windows': path = windows_path_to_sublime_path(path)\<close>.
\<close>

definition to_consumer_format :: "platform \<Rightarrow> pystr \<Rightarrow> error + pystr" where
  "to_consumer_format sys path =
     (if sys = Windows then windows_path_to_sublime_path path else Inr path)"

section \<open>Decoding the output of git\<close>

text \<open>
  \<open>bytes.decode('utf-8', 'ignore')\<close>, after the UTF-8 decoder of CPython 3: the decoder
  reads one code point at a time; where the bytes are not the encoding of a code point it
  reports the longest prefix that no valid sequence starts with (at least one byte), and the
  error handler decides what stands for those bytes.  \<open>utf8_step ch rest\<close> reads at the
  byte \<open>ch\<close> followed by \<open>rest\<close> and returns what it found and how many bytes it used.
\<close>

unbundle bit_operations_syntax

datatype piece = Cp nat | Bad

definition is_continuation :: "byte \<Rightarrow> bool" where
  "is_continuation b \<longleftrightarrow> 0x80 \<le> b \<and> b < 0xC0"

definition low6 :: "byte \<Rightarrow> nat" where
  "low6 b = unat (b AND 0x3F)"

definition utf8_step :: "byte \<Rightarrow> byte list \<Rightarrow> piece \<times> nat" where
  "utf8_step ch rest =
     (if ch < 0x80 then (Cp (unat ch), 1)
      else if ch < 0xC2 then (Bad, 1)
      else if ch < 0xE0 then
        (case rest of
           [] \<Rightarrow> (Bad, 1)
         | c2 # _ \<Rightarrow>
             if is_continuation c2 then (Cp (unat (ch AND 0x1F) * 64 + low6 c2), 2)
             else (Bad, 1))
      else if ch < 0xF0 then
        (case rest of
           [] \<Rightarrow> (Bad, 1)
         | c2 # r2 \<Rightarrow>
             if \<not> is_continuation c2 \<or> (if c2 < 0xA0 then ch = 0xE0 else ch = 0xED)
             then (Bad, 1)
             else (case r2 of
                     [] \<Rightarrow> (Bad, 2)
                   | c3 # _ \<Rightarrow>
                       if is_continuation c3
                       then (Cp (unat (ch AND 0x0F) * 4096 + low6 c2 * 64 + low6 c3), 3)
                       else (Bad, 2)))
      else if ch < 0xF5 then
        (case rest of
           [] \<Rightarrow> (Bad, 1)
         | c2 # r2 \<Rightarrow>
             if \<not> is_continuation c2 \<or> (if c2 < 0x90 then ch = 0xF0 else ch = 0xF4)
             then (Bad, 1)
             else (case r2 of
                     [] \<Rightarrow> (Bad, 2)
                   | c3 # r3 \<Rightarrow>
                       if \<not> is_continuation c3 then (Bad, 2)
                       else (case r3 of
                               [] \<Rightarrow> (Bad, 3)
                             | c4 # _ \<Rightarrow>
                                 if is_continuation c4
                                 then (Cp (unat (ch AND 0x07) * 262144 + low6 c2 * 4096
                                           + low6 c3 * 64 + low6 c4), 4)
                                 else (Bad, 3))))
      else (Bad, 1))"

function utf8_pieces :: "byte list \<Rightarrow> piece list" where
  "utf8_pieces [] = []"
| "utf8_pieces (b # bs) = (case utf8_step b bs of (p, n) \<Rightarrow> p # utf8_pieces (drop (n - 1) bs))"
  by pat_completeness auto
termination
  by (relation "measure length") auto

text \<open>With \<open>'ignore'\<close> the undecodable bytes leave nothing behind.\<close>

definition decode_utf8_ignore :: "byte list \<Rightarrow> pystr" where
  "decode_utf8_ignore bs = concat (map (\<lambda>p. case p of Cp c \<Rightarrow> [c] | Bad \<Rightarrow> []) (utf8_pieces bs))"




definition encode_ascii :: "string \<Rightarrow> byte list" where
  "encode_ascii s = map of_char s"

section \<open>The host: editor, file system and git\<close>

text \<open>
  What a directory walk sees: a file (anything that is not a directory), a symbolic link to
  a directory, which \<open>os.walk\<close> lists among the subdirectories and does not enter, or a
  directory with its entries in the order of the directory scan.
\<close>

datatype entry = File | DirLink | Dir "(pystr \<times> entry) list"

text \<open>
  A started process has an exit code and what it wrote to its standard output; a process
  that cannot be started (no git on the search path, no such working directory) makes
  \<open>subprocess.call\<close> and \<open>subprocess.Popen\<close> raise OSError.
\<close>

datatype proc = NotStarted | Exited int "byte list"

text \<open>
  Everything the plugin reads from outside: \<open>platform.system()\<close>; the folders of each
  window of the editor; the order in which a Python \<open>set\<close> is iterated, given the elements
  in the order they were put in (Python leaves that order open); the directory tree at a
  path; \<open>os.path.isdir\<close>, \<open>os.path.join\<close> and \<open>os.path.abspath\<close>; and what running a
  command line in a working directory gives.
\<close>

record host =
  system :: platform
  windows :: "pystr list list"
  set_order :: "pystr list \<Rightarrow> pystr list"
  tree_at :: "pystr \<Rightarrow> entry option"
  isdir :: "pystr \<Rightarrow> bool"
  path_join :: "pystr \<Rightarrow> pystr \<Rightarrow> pystr"
  abspath :: "pystr \<Rightarrow> pystr"
  run :: "string list \<Rightarrow> pystr \<Rightarrow> proc"

text \<open>An iteration order is one of a set: every element once.\<close>

definition order_ok :: "(pystr list \<Rightarrow> pystr list) \<Rightarrow> bool" where
  "order_ok f \<longleftrightarrow> (\<forall>xs. set (f xs) = set xs \<and> distinct (f xs))"

text \<open>\<open>posixpath.join\<close> for two components.\<close>

definition posix_join :: "pystr \<Rightarrow> pystr \<Rightarrow> pystr" where
  "posix_join a b =
     (if prefix (str ''/'') b then b
      else if a = [] \<or> last a = of_char CHR ''/'' then a @ b
      else a @ str ''/'' @ b)"

text \<open>
  A computation that may raise and that starts processes: its result, and the command
  lines it tried to run with their working directories, in order.
\<close>

type_synonym invocation = "string list \<times> pystr"
type_synonym 'a io = "(error + 'a) \<times> invocation list"

definition return_io :: "'a \<Rightarrow> 'a io" where
  "return_io x = (Inr x, [])"

definition bind_io :: "'a io \<Rightarrow> ('a \<Rightarrow> 'b io) \<Rightarrow> 'b io" where
  "bind_io m f =
     (case m of
        (Inl e, l) \<Rightarrow> (Inl e, l)
      | (Inr x, l) \<Rightarrow> (case f x of (r, l') \<Rightarrow> (r, l @ l')))"

definition subprocess :: "host \<Rightarrow> string list \<Rightarrow> pystr \<Rightarrow> (int \<times> byte list) io" where
  "subprocess h argv cwd =
     (case run h argv cwd of
        NotStarted \<Rightarrow> (Inl OSError, [(argv, cwd)])
      | Exited exit_code out \<Rightarrow> (Inr (exit_code, out), [(argv, cwd)]))"

section \<open>The repository locator\<close>

definition is_in_git_repo :: "host \<Rightarrow> pystr \<Rightarrow> bool io" where
  "is_in_git_repo h folder =
     bind_io (subprocess h [''git'', ''rev-parse'', ''--is-inside-work-tree''] folder)
       (\<lambda>(exit_code, out). return_io (exit_code = 0))"

definition parent_repo_path :: "host \<Rightarrow> pystr \<Rightarrow> pystr io" where
  "parent_repo_path h folder =
     bind_io (subprocess h [''git'', ''rev-parse'', ''--show-toplevel''] folder)
       (\<lambda>(exit_code, out). return_io (abspath h (str_strip (decode_utf8_ignore out))))"

text \<open>
  \<open>os.walk(top)\<close>, top down, not following links, errors of the scan swallowed: one triple
  for every directory it enters, then its subdirectories in turn.
\<close>

fun walk :: "(pystr \<Rightarrow> pystr \<Rightarrow> pystr) \<Rightarrow> pystr \<Rightarrow> entry \<Rightarrow> (pystr \<times> pystr list \<times> pystr list) list"
  and walk_into :: "(pystr \<Rightarrow> pystr \<Rightarrow> pystr) \<Rightarrow> pystr \<Rightarrow> (pystr \<times> entry) list
                      \<Rightarrow> (pystr \<times> pystr list \<times> pystr list) list" where
  "walk j dir (Dir es) =
     (dir, map fst (filter (\<lambda>(n, e). e \<noteq> File) es), map fst (filter (\<lambda>(n, e). e = File) es))
       # walk_into j dir es"
| "walk j dir File = []"
| "walk j dir DirLink = []"
| "walk_into j dir [] = []"
| "walk_into j dir ((n, e) # es) =
     (case e of Dir _ \<Rightarrow> walk j (j dir n) e | _ \<Rightarrow> []) @ walk_into j dir es"

definition os_walk :: "host \<Rightarrow> pystr \<Rightarrow> (pystr \<times> pystr list \<times> pystr list) list" where
  "os_walk h dir = (case tree_at h dir of None \<Rightarrow> [] | Some t \<Rightarrow> walk (path_join h) dir t)"

definition find_git_repos :: "host \<Rightarrow> pystr \<Rightarrow> pystr list" where
  "find_git_repos h folder =
     map fst (filter (\<lambda>(root, subfolders, files). str ''.git'' \<in> set subfolders) (os_walk h folder))"

text \<open>
  For comparison with the walk, the directories under a root said directly:
  \<open>dir_at j root t p es\<close> holds when going down from \<open>root\<close>, whose tree is \<open>t\<close>, through
  directories that are no links, one arrives at the path \<open>p\<close>, a directory with the entries
  \<open>es\<close>.  Such a directory holds the marker when it has a subdirectory (or a link to a
  directory) of the name \<open>.git\<close>.
\<close>

inductive dir_at :: "(pystr \<Rightarrow> pystr \<Rightarrow> pystr) \<Rightarrow> pystr \<Rightarrow> entry \<Rightarrow> pystr \<Rightarrow> (pystr \<times> entry) list \<Rightarrow> bool"
  for j :: "pystr \<Rightarrow> pystr \<Rightarrow> pystr" where
  here: "dir_at j dir (Dir es) dir es"
| below: "(n, Dir es') \<in> set es \<Longrightarrow> dir_at j (j dir n) (Dir es') p q \<Longrightarrow> dir_at j dir (Dir es) p q"


section \<open>The ignore enumerator\<close>

text \<open>Lines 176 to 188 of \<open>repo_ignored_paths\<close>: from the bytes git wrote to the paths.\<close>

definition relative_path :: "pystr \<Rightarrow> pystr" where
  "relative_path line = str_rstrip (str_replace_first line (str ''Would remove '') []) (str ''/'')"

definition parse_clean_output :: "host \<Rightarrow> pystr \<Rightarrow> byte list \<Rightarrow> pystr list" where
  "parse_clean_output h git_repo out =
     (let command_output = decode_utf8_ignore out
      in if str_isspace command_output \<or> command_output = [] then []
         else
           let lines = str_split (str_strip command_output) 0x0A;
               relative_paths = map relative_path lines;
               absolute_paths = map (path_join h git_repo) relative_paths
           in absolute_paths)"

definition repo_ignored_paths :: "host \<Rightarrow> pystr \<Rightarrow> pystr list io" where
  "repo_ignored_paths h git_repo =
     bind_io (subprocess h [''git'', ''clean'', ''-ndX''] git_repo)
       (\<lambda>(exit_code, out). return_io (parse_clean_output h git_repo out))"


section \<open>Collecting the ignored paths\<close>

text \<open>
  A Python \<open>set\<close> is kept as the list of what was put into it; a loop over it, and
  \<open>list\<close> of it, go through it in the order \<open>set_order\<close> gives.
  \<open>update_each f xs acc\<close> is the loop \<open>for x in xs: acc.update(f(x))\<close>.
\<close>

primrec update_each :: "pystr list \<Rightarrow> (pystr \<Rightarrow> pystr list io) \<Rightarrow> pystr list \<Rightarrow> pystr list io" where
  "update_each [] f acc = return_io acc"
| "update_each (x # xs) f acc = bind_io (f x) (\<lambda>ps. update_each xs f (acc @ ps))"

text \<open>Lines 104 to 109 of \<open>folder_ignored_paths\<close>: the repositories of a watched folder.\<close>

definition collect_repos :: "host \<Rightarrow> pystr \<Rightarrow> pystr list io" where
  "collect_repos h folder =
     (let repos = find_git_repos h folder
      in bind_io (is_in_git_repo h folder)
           (\<lambda>inside. if inside
                      then bind_io (parent_repo_path h folder) (\<lambda>p. return_io (repos @ [p]))
                      else return_io repos))"

text \<open>The repositories that a watched folder leads to, none when collecting them raises.\<close>

definition repos_of :: "host \<Rightarrow> pystr \<Rightarrow> pystr list" where
  "repos_of h folder = (case fst (collect_repos h folder) of Inl e \<Rightarrow> [] | Inr repos \<Rightarrow> repos)"

definition folder_ignored_paths :: "host \<Rightarrow> pystr \<Rightarrow> pystr list io" where
  "folder_ignored_paths h folder =
     bind_io (collect_repos h folder)
       (\<lambda>repos. bind_io (update_each (set_order h repos) (repo_ignored_paths h) [])
          (\<lambda>all_ignored_paths. return_io (set_order h all_ignored_paths)))"

definition open_folders :: "host \<Rightarrow> pystr list" where
  "open_folders h = concat (windows h)"

definition all_ignored_paths :: "host \<Rightarrow> pystr list io" where
  "all_ignored_paths h =
     bind_io (update_each (set_order h (open_folders h)) (folder_ignored_paths h) [])
       (\<lambda>all_ignored_paths. return_io (set_order h all_ignored_paths))"

section \<open>The exclusion synchroniser\<close>

text \<open>
  The settings document maps a key to a list of patterns.  \<open>s.get(key, default)\<close> hands
  out a copy of the stored value, so the three reads of \<open>update_file_exclude_patterns\<close>
  give three separate lists.  \<open>x or []\<close> is \<open>x\<close> unless \<open>x\<close> is empty.
\<close>

type_synonym settings = "string \<rightharpoonup> pystr list"

definition settings_get :: "settings \<Rightarrow> string \<Rightarrow> pystr list \<Rightarrow> pystr list" where
  "settings_get s key dflt = (case s key of None \<Rightarrow> dflt | Some v \<Rightarrow> v)"

definition py_or :: "'a list \<Rightarrow> 'a list \<Rightarrow> 'a list" where
  "py_or x y = (if x = [] then y else x)"

definition stored_patterns :: "settings \<Rightarrow> pystr list" where
  "stored_patterns s = py_or (settings_get s ''binary_file_patterns'' []) []"

text \<open>
  The loop of lines 48 to 64 over the two local lists \<open>file_exclude_patterns\<close> and
  \<open>folder_exclude_patterns\<close>.
\<close>

fun extend_patterns :: "host \<Rightarrow> pystr list \<Rightarrow> pystr list \<times> pystr list \<Rightarrow> error + (pystr list \<times> pystr list)" where
  "extend_patterns h [] (file_exclude_patterns, folder_exclude_patterns) =
     Inr (file_exclude_patterns, folder_exclude_patterns)"
| "extend_patterns h (path # rest) (file_exclude_patterns, folder_exclude_patterns) =
     (let is_directory = isdir h path
      in case to_consumer_format (system h) path of
           Inl e \<Rightarrow> Inl e
         | Inr path' \<Rightarrow>
             if is_directory
             then extend_patterns h rest
                    (file_exclude_patterns, folder_exclude_patterns @ [path', path' @ str ''/*''])
             else extend_patterns h rest
                    (file_exclude_patterns @ [path'], folder_exclude_patterns))"


text \<open>
  What a pass leaves behind: the exception that ended it, if any; the settings document;
  whether it was written and saved (the specification's \<open>changed\<close>); and the processes
  the pass tried to start.
\<close>

record outcome =
  raised :: "error option"
  prefs :: settings
  saved :: bool
  started :: "invocation list"

definition update_file_exclude_patterns :: "host \<Rightarrow> settings \<Rightarrow> outcome" where
  "update_file_exclude_patterns h s =
     (let file_exclude_patterns = stored_patterns s;
          folder_exclude_patterns = stored_patterns s
      in case all_ignored_paths h of
           (Inl e, l) \<Rightarrow> \<lparr>raised = Some e, prefs = s, saved = False, started = l\<rparr>
         | (Inr paths, l) \<Rightarrow>
             (case extend_patterns h paths (file_exclude_patterns, folder_exclude_patterns) of
                Inl e \<Rightarrow> \<lparr>raised = Some e, prefs = s, saved = False, started = l\<rparr>
              | Inr (file_exclude_patterns, folder_exclude_patterns) \<Rightarrow>
                  let new_files = set file_exclude_patterns;
                      old_files = set (stored_patterns s)
                  in if new_files \<noteq> old_files
                     then \<lparr>raised = None,
                           prefs = s(''binary_file_patterns'' \<mapsto> file_exclude_patterns),
                           saved = True, started = l\<rparr>
                     else \<lparr>raised = None, prefs = s, saved = False, started = l\<rparr>))"

section \<open>Hosts for the examples\<close>

text \<open>
  The scenario of the specification: the watched folder \<open>/work/app\<close> is in no repository
  itself and holds the repository \<open>/work/app/lib\<close>, where git reports the directory
  \<open>build\<close> and the file \<open>out.log\<close> as ignored.
\<close>

definition scenario_host :: host where
  "scenario_host = \<lparr>
     system = Posix,
     windows = [[str ''/work/app'']],
     set_order = remdups,
     tree_at = (\<lambda>p. if p = str ''/work/app''
                     then Some (Dir [(str ''lib'',
                             Dir [(str ''.git'', Dir []), (str ''build'', Dir []),
                                  (str ''out.log'', File)])])
                     else None),
     isdir = (\<lambda>p. p = str ''/work/app/lib/build''),
     path_join = posix_join,
     abspath = (\<lambda>p. p),
     run = (\<lambda>argv cwd.
              if argv = [''git'', ''clean'', ''-ndX''] \<and> cwd = str ''/work/app/lib''
              then Exited 0 (encode_ascii (''Would remove build/'' @ [CHR 0x0A] @
                                          ''Would remove out.log'' @ [CHR 0x0A]))
              else Exited 128 [])\<rparr>"

text \<open>The same machine without git, and with a git whose every command fails silently.\<close>

definition no_git_host :: host where
  "no_git_host = scenario_host\<lparr>run := (\<lambda>argv cwd. NotStarted)\<rparr>"

definition failing_git_host :: host where
  "failing_git_host = scenario_host\<lparr>run := (\<lambda>argv cwd. Exited 128 [])\<rparr>"

text \<open>
  Two watched folders \<open>/r/a\<close> and \<open>/r/b\<close>, both inside the repository \<open>/r\<close>, where git
  reports the files \<open>x.log\<close> and \<open>y.log\<close> as ignored.
\<close>

definition shared_repo_host :: host where
  "shared_repo_host = \<lparr>
     system = Posix,
     windows = [[str ''/r/a'', str ''/r/b'']],
     set_order = remdups,
     tree_at = (\<lambda>p. if p = str ''/r/a'' \<or> p = str ''/r/b'' then Some (Dir []) else None),
     isdir = (\<lambda>p. False),
     path_join = posix_join,
     abspath = (\<lambda>p. p),
     run = (\<lambda>argv cwd.
              if argv = [''git'', ''rev-parse'', ''--is-inside-work-tree'']
              then Exited 0 (encode_ascii (''true'' @ [CHR 0x0A]))
              else if argv = [''git'', ''rev-parse'', ''--show-toplevel'']
              then Exited 0 (encode_ascii (''/r'' @ [CHR 0x0A]))
              else if argv = [''git'', ''clean'', ''-ndX''] \<and> cwd = str ''/r''
              then Exited 0 (encode_ascii (''Would remove x.log'' @ [CHR 0x0A] @
                                          ''Would remove y.log'' @ [CHR 0x0A]))
              else Exited 128 [])\<rparr>"

text \<open>
  A checkout \<open>/r\<close> whose \<open>.git\<close> directory holds, further down, a directory with a
  \<open>.git\<close> of its own, beside the nested repository \<open>/r/lib\<close>.
\<close>

definition nested_tree :: entry where
  "nested_tree =
     Dir [(str ''.git'',
             Dir [(str ''HEAD'', File),
                  (str ''modules'', Dir [(str ''m'', Dir [(str ''.git'', Dir [])])])]),
          (str ''lib'', Dir [(str ''.git'', Dir []), (str ''src'', Dir [])]),
          (str ''README'', File)]"

definition nested_host :: host where
  "nested_host = scenario_host\<lparr>
     windows := [[str ''/r'']],
     tree_at := (\<lambda>p. if p = str ''/r'' then Some nested_tree else None)\<rparr>"

section \<open>Properties\<close>

lemma str_replace_char:
  "str_replace s [a] [b] = map (\<lambda>c. if c = a then b else c) s"
proof (induction s)
  case Nil
  show ?case by (subst str_replace.simps) simp
next
  case (Cons c cs)
  then show ?case
    by (subst str_replace.simps) auto
qed

text \<open>
  C8.  On Windows a path whose second character is the colon loses that colon and has
  every backslash turned into a slash, so that the path written C, colon, backslash, repo,
  backslash, build becomes \<open>C/repo/build\<close>; elsewhere the path is passed on as it is;
  and on Windows a path whose second character is not the colon, or that has no second
  character, raises.
\<close>

theorem C8_to_consumer_format:
  "to_consumer_format Windows (d # of_char CHR '':'' # rest) =
     Inr (map (\<lambda>c. if c = of_char (CHR 0x5C) then of_char CHR ''/'' else c) (d # rest)) \<and>
   to_consumer_format Windows (str (''C:'' @ [CHR 0x5C] @ ''repo'' @ [CHR 0x5C] @ ''build''))
     = Inr (str ''C/repo/build'') \<and>
   to_consumer_format Posix path = Inr path \<and>
   (length p < 2 \<or> p ! 1 \<noteq> of_char CHR '':''
      \<longrightarrow> (\<exists>e. to_consumer_format Windows p = Inl e))"
proof -
  have win: "to_consumer_format Windows (d # of_char CHR '':'' # rest) =
     Inr (map (\<lambda>c. if c = of_char (CHR 0x5C) then of_char CHR ''/'' else c) (d # rest))"
    for d rest
    by (simp add: to_consumer_format_def windows_path_to_sublime_path_def str_index_def
        str_from_def str_def str_replace_char)
  have ex: "to_consumer_format Windows
      (str (''C:'' @ [CHR 0x5C] @ ''repo'' @ [CHR 0x5C] @ ''build'')) = Inr (str ''C/repo/build'')"
    using win [of "of_char CHR ''C''" "str ([CHR 0x5C] @ ''repo'' @ [CHR 0x5C] @ ''build'')"]
    by (simp add: str_def)
  have posix: "to_consumer_format Posix path = Inr path"
    by (simp add: to_consumer_format_def)
  have bad: "length p < 2 \<or> p ! 1 \<noteq> of_char CHR '':''
     \<longrightarrow> (\<exists>e. to_consumer_format Windows p = Inl e)"
    by (auto simp: to_consumer_format_def windows_path_to_sublime_path_def str_index_def)
  from win ex posix bad show ?thesis by blast
qed

theorem C8_to_consumer_format_witness:
  "to_consumer_format Windows (str ''C:/x'') = Inr (str ''C/x'') \<and>
   to_consumer_format Posix (str ''/home/user/repo/build'') = Inr (str ''/home/user/repo/build'') \<and>
   length (str ''/x'') \<ge> 2 \<and> str ''/x'' ! 1 \<noteq> of_char CHR '':'' \<and>
   (\<exists>e. to_consumer_format Windows (str ''/x'') = Inl e)"
  using C8_to_consumer_format [of "of_char CHR ''C''" "str ''/x''" "str ''/home/user/repo/build''" "str ''/x''"]
  by (simp add: str_def)

subsection \<open>Unfolding the model\<close>

lemmas host_defs = scenario_host_def no_git_host_def failing_git_host_def shared_repo_host_def
  nested_host_def
lemmas io_defs = bind_io_def return_io_def subprocess_def
lemmas str_defs = str_def encode_ascii_def str_isspace_def str_strip_def str_rstrip_def is_space_def
  relative_path_def posix_join_def
lemmas dec_defs = decode_utf8_ignore_def utf8_step_def
lemmas git_defs = is_in_git_repo_def parent_repo_path_def find_git_repos_def os_walk_def
  parse_clean_output_def repo_ignored_paths_def collect_repos_def folder_ignored_paths_def
  open_folders_def all_ignored_paths_def

subsection \<open>The loop of the synchroniser\<close>

lemma py_or_Nil [simp]: "py_or x [] = x"
  by (simp add: py_or_def)

lemma stored_patterns_upd [simp]:
  "stored_patterns (s(''binary_file_patterns'' \<mapsto> v)) = v"
  by (simp add: stored_patterns_def settings_get_def)

lemma extend_patterns_append:
  "extend_patterns h paths (a, b) =
     (case extend_patterns h paths ([], []) of
        Inl e \<Rightarrow> Inl e
      | Inr (fs, gs) \<Rightarrow> Inr (a @ fs, b @ gs))"
proof (induction paths arbitrary: a b)
  case Nil
  show ?case by simp
next
  case (Cons p ps)
  show ?case
  proof (cases "to_consumer_format (system h) p")
    case (Inl e)
    then show ?thesis by simp
  next
    case (Inr p')
    show ?thesis
    proof (cases "isdir h p")
      case True
      with Inr show ?thesis
        using Cons.IH [of a "b @ [p', p' @ str ''/*'']"] Cons.IH [of "[]" "[p', p' @ str ''/*'']"]
        by (simp split: sum.splits prod.splits)
    next
      case False
      with Inr show ?thesis
        using Cons.IH [of "a @ [p']" b] Cons.IH [of "[p']" "[]"]
        by (simp split: sum.splits prod.splits)
    qed
  qed
qed


lemma extend_patterns_posix:
  "system h = Posix \<Longrightarrow>
     extend_patterns h paths ([], []) =
       Inr (filter (\<lambda>p. \<not> isdir h p) paths,
            concat (map (\<lambda>p. [p, p @ str ''/*'']) (filter (isdir h) paths)))"
proof (induction paths)
  case Nil
  show ?case by simp
next
  case (Cons p ps)
  then have IH: "extend_patterns h ps ([], []) =
       Inr (filter (\<lambda>p. \<not> isdir h p) ps,
            concat (map (\<lambda>p. [p, p @ str ''/*'']) (filter (isdir h) ps)))"
    by simp
  show ?case
    using Cons.prems extend_patterns_append [of h ps "[p]" "[]"]
      extend_patterns_append [of h ps "[]" "[p, p @ str ''/*'']"]
    by (simp add: to_consumer_format_def IH)
qed



text \<open>The pass in terms of the list that the loop computes.\<close>

lemma update_cases:
  "update_file_exclude_patterns h s =
     (case all_ignored_paths h of
        (Inl e, l) \<Rightarrow> \<lparr>raised = Some e, prefs = s, saved = False, started = l\<rparr>
      | (Inr paths, l) \<Rightarrow>
          (case extend_patterns h paths ([], []) of
             Inl e \<Rightarrow> \<lparr>raised = Some e, prefs = s, saved = False, started = l\<rparr>
           | Inr (fs, gs) \<Rightarrow>
               if set fs \<subseteq> set (stored_patterns s)
               then \<lparr>raised = None, prefs = s, saved = False, started = l\<rparr>
               else \<lparr>raised = None,
                     prefs = s(''binary_file_patterns'' \<mapsto> stored_patterns s @ fs),
                     saved = True, started = l\<rparr>))"
  unfolding update_file_exclude_patterns_def Let_def
  by (subst extend_patterns_append) (auto split: sum.splits prod.splits)

subsection \<open>The example hosts, evaluated\<close>

lemma scenario_paths:
  "all_ignored_paths scenario_host =
     (Inr [str ''/work/app/lib/build'', str ''/work/app/lib/out.log''],
      [([''git'', ''rev-parse'', ''--is-inside-work-tree''], str ''/work/app''),
       ([''git'', ''clean'', ''-ndX''], str ''/work/app/lib'')])"
  by (simp add: host_defs io_defs str_defs dec_defs git_defs)

lemma shared_repo_paths:
  "all_ignored_paths shared_repo_host =
     (Inr [str ''/r/x.log'', str ''/r/y.log''],
      [([''git'', ''rev-parse'', ''--is-inside-work-tree''], str ''/r/a''),
       ([''git'', ''rev-parse'', ''--show-toplevel''], str ''/r/a''),
       ([''git'', ''clean'', ''-ndX''], str ''/r''),
       ([''git'', ''rev-parse'', ''--is-inside-work-tree''], str ''/r/b''),
       ([''git'', ''rev-parse'', ''--show-toplevel''], str ''/r/b''),
       ([''git'', ''clean'', ''-ndX''], str ''/r'')])"
  by (simp add: host_defs io_defs str_defs dec_defs git_defs)

lemma scenario_pass:
  "update_file_exclude_patterns scenario_host s =
     (if str ''/work/app/lib/out.log'' \<in> set (stored_patterns s)
      then \<lparr>raised = None, prefs = s, saved = False,
            started = snd (all_ignored_paths scenario_host)\<rparr>
      else \<lparr>raised = None,
            prefs = s(''binary_file_patterns'' \<mapsto>
                       stored_patterns s @ [str ''/work/app/lib/out.log'']),
            saved = True, started = snd (all_ignored_paths scenario_host)\<rparr>)"
proof -
  have sys: "system scenario_host = Posix"
    by (simp add: scenario_host_def)
  have dir: "isdir scenario_host p \<longleftrightarrow> p = str ''/work/app/lib/build''" for p
    by (simp add: scenario_host_def)
  have neq: "str ''/work/app/lib/out.log'' \<noteq> str ''/work/app/lib/build''"
    by (simp add: str_def)
  have ext: "extend_patterns scenario_host
      [str ''/work/app/lib/build'', str ''/work/app/lib/out.log''] ([], []) =
      Inr ([str ''/work/app/lib/out.log''],
           [str ''/work/app/lib/build'', str ''/work/app/lib/build'' @ str ''/*''])"
    by (simp add: to_consumer_format_def sys dir neq)
  show ?thesis
    by (simp add: update_cases scenario_paths ext del: extend_patterns.simps)
qed

lemma shared_repo_pass:
  "update_file_exclude_patterns shared_repo_host s =
     (if str ''/r/x.log'' \<in> set (stored_patterns s) \<and> str ''/r/y.log'' \<in> set (stored_patterns s)
      then \<lparr>raised = None, prefs = s, saved = False,
            started = snd (all_ignored_paths shared_repo_host)\<rparr>
      else \<lparr>raised = None,
            prefs = s(''binary_file_patterns'' \<mapsto>
                       stored_patterns s @ [str ''/r/x.log'', str ''/r/y.log'']),
            saved = True, started = snd (all_ignored_paths shared_repo_host)\<rparr>)"
proof -
  have sys: "system shared_repo_host = Posix"
    by (simp add: shared_repo_host_def)
  have dir: "\<not> isdir shared_repo_host p" for p
    by (simp add: shared_repo_host_def)
  have ext: "extend_patterns shared_repo_host [str ''/r/x.log'', str ''/r/y.log''] ([], []) =
      Inr ([str ''/r/x.log'', str ''/r/y.log''], [])"
    by (simp add: to_consumer_format_def sys dir)
  show ?thesis
    by (simp add: update_cases shared_repo_paths ext del: extend_patterns.simps)
qed

lemma stored_patterns_empty [simp]: "stored_patterns Map.empty = []"
  by (simp add: stored_patterns_def settings_get_def)

subsection \<open>Claims about the synchroniser\<close>

text \<open>
  C1.  In the scenario git reports the directory \<open>build\<close> and the file \<open>out.log\<close>,
  and the stored list is empty.  The pass saves, but the list it saves holds the file only:
  the two patterns of the directory went to \<open>folder_exclude_patterns\<close>, which nothing
  reads after the loop.
\<close>

theorem C1_scenario_directory_not_persisted:
  "all_ignored_paths scenario_host =
     (Inr [str ''/work/app/lib/build'', str ''/work/app/lib/out.log''],
      [([''git'', ''rev-parse'', ''--is-inside-work-tree''], str ''/work/app''),
       ([''git'', ''clean'', ''-ndX''], str ''/work/app/lib'')]) \<and>
   isdir scenario_host (str ''/work/app/lib/build'') \<and>
   \<not> isdir scenario_host (str ''/work/app/lib/out.log'') \<and>
   raised (update_file_exclude_patterns scenario_host Map.empty) = None \<and>
   saved (update_file_exclude_patterns scenario_host Map.empty) \<and>
   stored_patterns (prefs (update_file_exclude_patterns scenario_host Map.empty))
     = [str ''/work/app/lib/out.log'']"
  by (simp add: scenario_pass scenario_paths) (simp add: scenario_host_def str_def)

text \<open>
  C3.  A second pass on the same host, started from the settings that the first pass left,
  leaves the same settings, saves nothing and ends as the first did; and the first pass
  saves exactly when it ran to its end and the patterns it computed differ, as a set, from
  the stored ones.  (Within one process a Python set built by the same insertions is
  iterated in the same order, which is what a fixed \<open>set_order\<close> says.)
\<close>

theorem C3_sync_idempotent:
  "prefs (update_file_exclude_patterns h (prefs (update_file_exclude_patterns h s)))
     = prefs (update_file_exclude_patterns h s) \<and>
   \<not> saved (update_file_exclude_patterns h (prefs (update_file_exclude_patterns h s))) \<and>
   raised (update_file_exclude_patterns h (prefs (update_file_exclude_patterns h s)))
     = raised (update_file_exclude_patterns h s) \<and>
   (saved (update_file_exclude_patterns h s) \<longleftrightarrow>
      (\<exists>paths l files folders.
          all_ignored_paths h = (Inr paths, l) \<and>
          extend_patterns h paths (stored_patterns s, stored_patterns s) = Inr (files, folders) \<and>
          set files \<noteq> set (stored_patterns s)))"
proof (cases "all_ignored_paths h")
  case (Pair r l)
  show ?thesis
  proof (cases r)
    case (Inl e)
    with Pair show ?thesis by (simp add: update_cases)
  next
    case (Inr paths)
    show ?thesis
    proof (cases "extend_patterns h paths ([], [])")
      case (Inl e)
      with Pair Inr show ?thesis
        by (simp add: update_cases extend_patterns_append [of h paths "stored_patterns s"])
    next
      case ok: (Inr p)
      obtain fs gs where p: "p = (fs, gs)" by (cases p)
      have "set (stored_patterns s @ fs) \<noteq> set (stored_patterns s)
              \<longleftrightarrow> \<not> set fs \<subseteq> set (stored_patterns s)"
        by auto
      with Pair Inr ok p show ?thesis
        by (simp add: update_cases extend_patterns_append [of h paths "stored_patterns s"])
    qed
  qed
qed

theorem C3_sync_idempotent_witness:
  "saved (update_file_exclude_patterns scenario_host Map.empty) \<and>
   \<not> saved (update_file_exclude_patterns scenario_host
              (prefs (update_file_exclude_patterns scenario_host Map.empty))) \<and>
   stored_patterns (prefs (update_file_exclude_patterns scenario_host
              (prefs (update_file_exclude_patterns scenario_host Map.empty))))
     = [str ''/work/app/lib/out.log'']"
  using C3_sync_idempotent [of scenario_host Map.empty]
  by (simp add: scenario_pass)



text \<open>
  C9.  There are a host and a duplicate-free stored list, holding a pattern that the pass
  derives again, for which the pass saves a list with that pattern in it twice.
\<close>

theorem C9_duplicate_appended:
  "\<exists>h s p. distinct (stored_patterns s) \<and> p \<in> set (stored_patterns s) \<and>
     (\<exists>l paths. all_ignored_paths h = (Inr paths, l) \<and> p \<in> set paths) \<and>
     saved (update_file_exclude_patterns h s) \<and>
     count_list (stored_patterns (prefs (update_file_exclude_patterns h s))) p = 2"
proof -
  let ?s = "[''binary_file_patterns'' \<mapsto> [str ''/r/x.log'']] :: settings"
  have neq: "str ''/r/y.log'' \<noteq> str ''/r/x.log''" by (simp add: str_def)
  have "distinct (stored_patterns ?s) \<and> str ''/r/x.log'' \<in> set (stored_patterns ?s) \<and>
     (\<exists>l paths. all_ignored_paths shared_repo_host = (Inr paths, l) \<and> str ''/r/x.log'' \<in> set paths) \<and>
     saved (update_file_exclude_patterns shared_repo_host ?s) \<and>
     count_list (stored_patterns (prefs (update_file_exclude_patterns shared_repo_host ?s)))
       (str ''/r/x.log'') = 2"
    using neq by (simp add: shared_repo_pass shared_repo_paths)
  then show ?thesis by blast
qed

subsection \<open>Strings: first occurrence, trailing characters, lines\<close>

lemma str_replace_first_at:
  "old \<noteq> [] \<Longrightarrow> \<not> sublist old (a @ butlast old) \<Longrightarrow>
     str_replace_first (a @ old @ b) old new = a @ new @ b"
proof (induction a)
  case Nil
  then obtain c cs where "old @ b = c # cs"
    by (cases old) auto
  then have "str_replace_first (old @ b) old new = new @ drop (length old) (old @ b)"
    by (metis prefixI str_replace_first.simps(2))
  then show ?case by simp
next
  case (Cons x a)
  have no_prefix: "\<not> prefix old (x # a @ old @ b)"
  proof
    assume "prefix old (x # a @ old @ b)"
    then have "old = take (length old) (x # a @ old @ b)"
      by (metis append_eq_conv_conj prefixE)
    also have "\<dots> = take (length old) ((x # a) @ butlast old)"
      using Cons.prems(1) by (cases old rule: rev_cases) auto
    finally have "prefix old ((x # a) @ butlast old)"
      by (metis take_is_prefix)
    with Cons.prems(2) show False by auto
  qed
  from Cons.prems(2) have "\<not> sublist old (a @ butlast old)"
    by (simp add: sublist_Cons_right)
  with Cons.IH Cons.prems(1) have "str_replace_first (a @ old @ b) old new = a @ new @ b"
    by simp
  with no_prefix show ?case by simp
qed

lemma str_rstrip_keep:
  "c \<notin> set chars \<Longrightarrow> str_rstrip (xs @ c # ys) chars = xs @ c # str_rstrip ys chars"
  by (simp add: str_rstrip_def dropWhile_append)

lemma str_rstrip_sublist:
  assumes "sublist (w @ [c]) p" and "c \<notin> set chars"
  shows "sublist (w @ [c]) (str_rstrip p chars)"
proof -
  from assms(1) obtain u v where "p = u @ (w @ [c]) @ v"
    by (auto simp: sublist_def)
  then have "str_rstrip p chars = (u @ w) @ c # str_rstrip v chars"
    using str_rstrip_keep [OF assms(2), of "u @ w" v] by simp
  then show ?thesis
    by (metis append.assoc append_Cons append_Nil sublist_appendI)
qed

lemma posix_join_suffix: "suffix b (posix_join a b)"
  by (simp add: posix_join_def suffix_def)






lemma not_sublist_butlast: "old \<noteq> [] \<Longrightarrow> \<not> sublist old (butlast old)"
proof
  assume a: "old \<noteq> []" and b: "sublist old (butlast old)"
  from b have "length old \<le> length (butlast old)"
    by (rule sublist_length_le)
  moreover from a have "length (butlast old) < length old"
    by (cases old rule: rev_cases) simp_all
  ultimately show False by linarith
qed


subsection \<open>Decoding\<close>







lemma unat_byte: "n < 256 \<Longrightarrow> unat (of_nat n :: byte) = n"
  by (simp add: unat_of_nat)








lemma byte_eq_iff: "n < 256 \<Longrightarrow> m < 256 \<Longrightarrow> (of_nat n :: byte) = of_nat m \<longleftrightarrow> n = m"
proof -
  assume n: "n < 256" and m: "m < 256"
  have "(of_nat n :: byte) = of_nat m \<longleftrightarrow> unat (of_nat n :: byte) = unat (of_nat m :: byte)"
    by (rule word_unat_eq_iff)
  also have "\<dots> \<longleftrightarrow> n = m"
    unfolding unat_byte [OF n] unat_byte [OF m] ..
  finally show ?thesis .
qed


















subsection \<open>Claims about the enumerator\<close>




text \<open>
  C10.  In a line whose leftmost occurrence of \<open>Would remove \<close> starts after \<open>a\<close>, that
  occurrence alone is removed and \<open>a\<close> and the rest \<open>b\<close> are kept.  So for a line that
  starts with the literal and whose path \<open>p\<close> holds the literal again, the relative path
  still holds it, and so does the joined path whenever the join keeps its second argument
  as the end of its result (as the joins of \<open>os.path\<close> do).
\<close>

theorem C10_only_first_occurrence_removed:
  "(\<not> sublist (str ''Would remove '') (a @ butlast (str ''Would remove '')) \<longrightarrow>
      str_replace_first (a @ str ''Would remove '' @ b) (str ''Would remove '') [] = a @ b) \<and>
   (sublist (str ''Would remove '') p \<longrightarrow>
      relative_path (str ''Would remove '' @ p) = str_rstrip p (str ''/'') \<and>
      sublist (str ''Would remove '') (relative_path (str ''Would remove '' @ p)) \<and>
      ((\<forall>x y. suffix y (path_join h x y)) \<longrightarrow>
         sublist (str ''Would remove '')
           (path_join h git_repo (relative_path (str ''Would remove '' @ p)))))"
proof -
  let ?W = "str ''Would remove ''"
  have W: "?W \<noteq> []" "?W = str ''Would remove'' @ [of_char CHR '' '']"
      "of_char CHR '' '' \<notin> set (str ''/'')"
    by (simp_all add: str_def)
  have first: "\<not> sublist ?W (a @ butlast ?W) \<longrightarrow> str_replace_first (a @ ?W @ b) ?W [] = a @ b"
    using str_replace_first_at [OF W(1), of a b "[]"] by simp
  have rel: "relative_path (?W @ p) = str_rstrip p (str ''/'')"
    using str_replace_first_at [OF W(1), of "[]" p "[]"] not_sublist_butlast [OF W(1)]
    by (simp add: relative_path_def)
  have kept: "sublist ?W (str_rstrip p (str ''/''))" if "sublist ?W p"
    using str_rstrip_sublist [of "str ''Would remove''" "of_char CHR '' ''" p "str ''/''"] that W(2,3)
    by simp
  have joined: "sublist ?W (path_join h git_repo (str_rstrip p (str ''/'')))"
    if "sublist ?W p" "\<forall>x y. suffix y (path_join h x y)"
  proof -
    from that(2) have "sublist (str_rstrip p (str ''/'')) (path_join h git_repo (str_rstrip p (str ''/'')))"
      by (simp add: suffix_imp_sublist)
    with kept [OF that(1)] show ?thesis
      by (rule sublist_order.order_trans)
  qed
  from first rel kept joined show ?thesis by simp
qed

theorem C10_only_first_occurrence_removed_witness:
  "relative_path (str ''Would remove a/Would remove b'') = str ''a/Would remove b'' \<and>
   path_join scenario_host (str ''/r'') (relative_path (str ''Would remove a/Would remove b''))
     = str ''/r/a/Would remove b'' \<and>
   sublist (str ''Would remove '') (str ''/r/a/Would remove b'')"
  using C10_only_first_occurrence_removed [of "[]" "str ''a/Would remove b''"
      "str ''a/Would remove b''" scenario_host "str ''/r''"]
    posix_join_suffix
  by (simp add: host_defs str_defs sublist_Cons_right)

subsection \<open>The directory walk\<close>

inductive_simps dir_at_File [simp]: "dir_at j d File p q"
inductive_simps dir_at_DirLink [simp]: "dir_at j d DirLink p q"










subsection \<open>Claims about the repository locator\<close>




subsection \<open>Computations that raise and start processes\<close>

lemma bind_io_Inr [simp]: "bind_io (Inr x, l) f = (fst (f x), l @ snd (f x))"
  by (simp add: bind_io_def split: prod.splits)

lemma bind_io_Inl [simp]: "bind_io (Inl e, l) f = (Inl e, l)"
  by (simp add: bind_io_def)

lemma fst_return_io [simp]: "fst (return_io x) = Inr x"
  and snd_return_io [simp]: "snd (return_io x) = []"
  by (simp_all add: return_io_def)

lemma update_each_ok:
  "\<forall>x\<in>set xs. \<exists>ps. fst (f x) = Inr ps \<Longrightarrow>
     update_each xs f acc =
       (Inr (acc @ concat (map (\<lambda>x. projr (fst (f x))) xs)), concat (map (\<lambda>x. snd (f x)) xs))"
proof (induction xs arbitrary: acc)
  case Nil
  show ?case by (simp add: return_io_def)
next
  case (Cons x xs)
  then obtain ps where ps: "fst (f x) = Inr ps" by auto
  then have fx: "f x = (Inr ps, snd (f x))" by (metis prod.collapse)
  from Cons.prems have "\<forall>x\<in>set xs. \<exists>ps. fst (f x) = Inr ps" by simp
  from Cons.IH [OF this, of "acc @ ps"] show ?case
    by (subst update_each.simps, subst fx) (simp add: ps)
qed

lemma update_each_Inr:
  "fst (update_each xs f acc) = Inr r \<Longrightarrow> \<forall>x\<in>set xs. \<exists>ps. fst (f x) = Inr ps"
proof (induction xs arbitrary: acc)
  case Nil
  show ?case by simp
next
  case (Cons x xs)
  show ?case
  proof (cases "fst (f x)")
    case (Inl e)
    then have "f x = (Inl e, snd (f x))" by (metis prod.collapse)
    with Cons.prems show ?thesis
      by (subst (asm) update_each.simps) (metis bind_io_Inl fst_conv sum.distinct(1))
  next
    case (Inr ps)
    then have fx: "f x = (Inr ps, snd (f x))" by (metis prod.collapse)
    from Cons.prems have "fst (update_each xs f (acc @ ps)) = Inr r"
      by (subst (asm) update_each.simps, subst (asm) fx) simp
    from Cons.IH [OF this] Inr show ?thesis by simp
  qed
qed

lemma update_each_raises:
  "xs \<noteq> [] \<Longrightarrow> fst (f (hd xs)) = Inl e \<Longrightarrow> update_each xs f acc = (Inl e, snd (f (hd xs)))"
proof (cases xs)
  case Nil
  assume "xs \<noteq> []"
  with Nil show ?thesis by simp
next
  case (Cons x ys)
  assume "fst (f (hd xs)) = Inl e"
  with Cons have "f x = (Inl e, snd (f x))" by (metis list.sel(1) prod.collapse)
  with Cons show ?thesis
    by (simp only: update_each.simps list.sel) (metis bind_io_Inl)
qed


lemma bind_io_InrE:
  assumes "fst (bind_io m f) = Inr y"
  obtains x where "fst m = Inr x" "fst (f x) = Inr y" "snd (bind_io m f) = snd m @ snd (f x)"
proof (cases m)
  case (Pair r l)
  show ?thesis
  proof (cases r)
    case (Inl e)
    with Pair assms show ?thesis by simp
  next
    case (Inr x)
    with Pair assms that [of x] show ?thesis by simp
  qed
qed

lemma subprocess_eval:
  "subprocess h argv cwd =
     ((case run h argv cwd of NotStarted \<Rightarrow> Inl OSError | Exited c out \<Rightarrow> Inr (c, out)),
      [(argv, cwd)])"
  by (simp add: subprocess_def split: proc.splits)

lemma is_in_git_repo_eval:
  "is_in_git_repo h folder =
     ((case run h [''git'', ''rev-parse'', ''--is-inside-work-tree''] folder of
         NotStarted \<Rightarrow> Inl OSError | Exited c out \<Rightarrow> Inr (c = 0)),
      [([''git'', ''rev-parse'', ''--is-inside-work-tree''], folder)])"
  by (simp add: is_in_git_repo_def subprocess_eval split: proc.splits)

lemma parent_repo_path_eval:
  "parent_repo_path h folder =
     ((case run h [''git'', ''rev-parse'', ''--show-toplevel''] folder of
         NotStarted \<Rightarrow> Inl OSError
       | Exited c out \<Rightarrow> Inr (abspath h (str_strip (decode_utf8_ignore out)))),
      [([''git'', ''rev-parse'', ''--show-toplevel''], folder)])"
  by (simp add: parent_repo_path_def subprocess_eval split: proc.splits)

lemma repo_ignored_paths_eval:
  "repo_ignored_paths h git_repo =
     ((case run h [''git'', ''clean'', ''-ndX''] git_repo of
         NotStarted \<Rightarrow> Inl OSError
       | Exited c out \<Rightarrow> Inr (parse_clean_output h git_repo out)),
      [([''git'', ''clean'', ''-ndX''], git_repo)])"
  by (simp add: repo_ignored_paths_def subprocess_eval split: proc.splits)

lemma collect_repos_eval:
  "collect_repos h folder =
     (case run h [''git'', ''rev-parse'', ''--is-inside-work-tree''] folder of
        NotStarted \<Rightarrow> (Inl OSError, [([''git'', ''rev-parse'', ''--is-inside-work-tree''], folder)])
      | Exited c out \<Rightarrow>
          if c = 0
          then (case run h [''git'', ''rev-parse'', ''--show-toplevel''] folder of
                  NotStarted \<Rightarrow>
                    (Inl OSError,
                     [([''git'', ''rev-parse'', ''--is-inside-work-tree''], folder),
                      ([''git'', ''rev-parse'', ''--show-toplevel''], folder)])
                | Exited c' out' \<Rightarrow>
                    (Inr (find_git_repos h folder @ [abspath h (str_strip (decode_utf8_ignore out'))]),
                     [([''git'', ''rev-parse'', ''--is-inside-work-tree''], folder),
                      ([''git'', ''rev-parse'', ''--show-toplevel''], folder)]))
          else (Inr (find_git_repos h folder),
                [([''git'', ''rev-parse'', ''--is-inside-work-tree''], folder)]))"
  by (simp add: collect_repos_def is_in_git_repo_eval parent_repo_path_eval Let_def
      split: proc.splits)

lemma collect_repos_no_clean:
  "count_list (snd (collect_repos h folder)) ([''git'', ''clean'', ''-ndX''], r) = 0"
  by (simp add: collect_repos_eval split: proc.splits)

lemma fst_collect_repos:
  "fst (collect_repos h folder) = Inr repos \<Longrightarrow> repos_of h folder = repos"
  by (simp add: repos_of_def)

lemma count_list_concat_indicator:
  "\<forall>x\<in>set xs. count_list (g x) y = (if P x then 1 else 0) \<Longrightarrow>
     count_list (concat (map g xs)) y = length (filter P xs)"
  by (induction xs) simp_all

lemma count_list_map_Pair: "count_list (map (\<lambda>x. (a, x)) xs) (a, y) = count_list xs y"
  by (induction xs) simp_all

lemma concat_map_singleton: "concat (map (\<lambda>x. [g x]) xs) = map g xs"
  by (induction xs) simp_all

lemma count_list_distinct:
  "distinct xs \<Longrightarrow> count_list xs y = (if y \<in> set xs then 1 else 0)"
  by (induction xs) auto

text \<open>A folder whose paths were collected: what it ran.\<close>

lemma folder_ignored_paths_started:
  assumes ok: "fst (folder_ignored_paths h folder) = Inr ps"
  shows "snd (folder_ignored_paths h folder) =
           snd (collect_repos h folder) @
           map (\<lambda>r. ([''git'', ''clean'', ''-ndX''], r)) (set_order h (repos_of h folder))"
proof -
  from ok obtain repos where
    repos: "fst (collect_repos h folder) = Inr repos" and
    inner: "fst (bind_io (update_each (set_order h repos) (repo_ignored_paths h) [])
                   (\<lambda>a. return_io (set_order h a))) = Inr ps" and
    log: "snd (folder_ignored_paths h folder) =
            snd (collect_repos h folder) @
            snd (bind_io (update_each (set_order h repos) (repo_ignored_paths h) [])
                   (\<lambda>a. return_io (set_order h a)))"
    unfolding folder_ignored_paths_def by (rule bind_io_InrE)
  from inner obtain a where
    a: "fst (update_each (set_order h repos) (repo_ignored_paths h) []) = Inr a" and
    log2: "snd (bind_io (update_each (set_order h repos) (repo_ignored_paths h) [])
                   (\<lambda>a. return_io (set_order h a))) =
             snd (update_each (set_order h repos) (repo_ignored_paths h) []) @ snd (return_io (set_order h a))"
    by (rule bind_io_InrE)
  from a have "\<forall>x\<in>set (set_order h repos). \<exists>ps. fst (repo_ignored_paths h x) = Inr ps"
    by (rule update_each_Inr)
  then have "snd (update_each (set_order h repos) (repo_ignored_paths h) []) =
               concat (map (\<lambda>x. snd (repo_ignored_paths h x)) (set_order h repos))"
    by (simp add: update_each_ok)
  also have "\<dots> = map (\<lambda>r. ([''git'', ''clean'', ''-ndX''], r)) (set_order h repos)"
    by (simp add: repo_ignored_paths_eval concat_map_singleton)
  finally show ?thesis
    using log log2 fst_collect_repos [OF repos] by simp
qed

lemma all_ignored_paths_started:
  assumes ok: "fst (all_ignored_paths h) = Inr paths"
  shows "paths = set_order h (concat (map (\<lambda>f. projr (fst (folder_ignored_paths h f)))
                    (set_order h (open_folders h))))"
    and "snd (all_ignored_paths h) =
           concat (map (\<lambda>f. snd (folder_ignored_paths h f)) (set_order h (open_folders h)))"
    and "\<forall>f\<in>set (set_order h (open_folders h)). \<exists>ps. fst (folder_ignored_paths h f) = Inr ps"
proof -
  from ok obtain a where
    a: "fst (update_each (set_order h (open_folders h)) (folder_ignored_paths h) []) = Inr a" and
    ret: "fst (return_io (set_order h a)) = Inr paths" and
    log: "snd (all_ignored_paths h) =
            snd (update_each (set_order h (open_folders h)) (folder_ignored_paths h) []) @
            snd (return_io (set_order h a))"
    unfolding all_ignored_paths_def by (rule bind_io_InrE)
  from a show all: "\<forall>f\<in>set (set_order h (open_folders h)). \<exists>ps. fst (folder_ignored_paths h f) = Inr ps"
    by (rule update_each_Inr)
  note eq = update_each_ok [OF all, of "[]"]
  from a ret show "paths = set_order h (concat (map (\<lambda>f. projr (fst (folder_ignored_paths h f)))
                    (set_order h (open_folders h))))"
    by (simp add: eq)
  from log show "snd (all_ignored_paths h) =
           concat (map (\<lambda>f. snd (folder_ignored_paths h f)) (set_order h (open_folders h)))"
    by (simp add: eq)
qed

text \<open>How often a pass that collects its paths runs the enumeration in a repository.\<close>

lemma clean_count:
  assumes ord: "order_ok (set_order h)" and ok: "fst (all_ignored_paths h) = Inr paths"
  shows "count_list (snd (all_ignored_paths h)) ([''git'', ''clean'', ''-ndX''], r) =
           length (filter (\<lambda>f. r \<in> set (repos_of h f)) (set_order h (open_folders h)))"
proof -
  have "count_list (snd (folder_ignored_paths h f)) ([''git'', ''clean'', ''-ndX''], r) =
          (if r \<in> set (repos_of h f) then 1 else 0)"
    if "f \<in> set (set_order h (open_folders h))" for f
  proof -
    from that all_ignored_paths_started(3) [OF ok]
    obtain ps where "fst (folder_ignored_paths h f) = Inr ps" by blast
    note log = folder_ignored_paths_started [OF this]
    have "count_list (map (\<lambda>r. ([''git'', ''clean'', ''-ndX''], r)) (set_order h (repos_of h f)))
            ([''git'', ''clean'', ''-ndX''], r) = count_list (set_order h (repos_of h f)) r"
      by (rule count_list_map_Pair)
    also have "\<dots> = (if r \<in> set (repos_of h f) then 1 else 0)"
      using ord by (simp add: count_list_distinct order_ok_def)
    finally show ?thesis
      by (simp add: log collect_repos_no_clean)
  qed
  then show ?thesis
    unfolding all_ignored_paths_started(2) [OF ok]
    by (intro count_list_concat_indicator) simp
qed

lemma bind_io_fst_Inr: "fst m = Inr x \<Longrightarrow> bind_io m f = (fst (f x), snd m @ snd (f x))"
  by (cases m) simp

lemma order_ok_remdups: "order_ok remdups"
  by (simp add: order_ok_def)

lemma order_ok_Nil: "order_ok f \<Longrightarrow> f [] = []"
  by (simp add: order_ok_def) (metis set_empty)

lemma folder_ignored_paths_value:
  assumes ok: "fst (folder_ignored_paths h folder) = Inr ps"
  shows "ps = set_order h (concat (map (\<lambda>r. projr (fst (repo_ignored_paths h r)))
                 (set_order h (repos_of h folder))))"
    and "\<forall>r\<in>set (set_order h (repos_of h folder)). \<exists>qs. fst (repo_ignored_paths h r) = Inr qs"
proof -
  from ok obtain repos where
    repos: "fst (collect_repos h folder) = Inr repos" and
    inner: "fst (bind_io (update_each (set_order h repos) (repo_ignored_paths h) [])
                   (\<lambda>a. return_io (set_order h a))) = Inr ps"
    unfolding folder_ignored_paths_def by (rule bind_io_InrE)
  from inner obtain a where
    a: "fst (update_each (set_order h repos) (repo_ignored_paths h) []) = Inr a" and
    ret: "fst (return_io (set_order h a)) = Inr ps"
    by (rule bind_io_InrE)
  from a have all: "\<forall>x\<in>set (set_order h repos). \<exists>ps. fst (repo_ignored_paths h x) = Inr ps"
    by (rule update_each_Inr)
  with fst_collect_repos [OF repos]
  show "\<forall>r\<in>set (set_order h (repos_of h folder)). \<exists>qs. fst (repo_ignored_paths h r) = Inr qs"
    by simp
  from a ret update_each_ok [OF all, of "[]"] fst_collect_repos [OF repos]
  show "ps = set_order h (concat (map (\<lambda>r. projr (fst (repo_ignored_paths h r)))
                 (set_order h (repos_of h folder))))"
    by simp
qed

text \<open>The paths of a pass are those of the repositories that its folders lead to.\<close>

lemma all_ignored_paths_set:
  assumes ord: "order_ok (set_order h)" and ok: "fst (all_ignored_paths h) = Inr paths"
  shows "set paths =
           (\<Union>f\<in>set (open_folders h). \<Union>r\<in>set (repos_of h f).
              set (projr (fst (repo_ignored_paths h r))))"
proof -
  from ord have so: "set (set_order h xs) = set xs" for xs
    by (simp add: order_ok_def)
  have folder: "set (projr (fst (folder_ignored_paths h f))) =
                  (\<Union>r\<in>set (repos_of h f). set (projr (fst (repo_ignored_paths h r))))"
    if "f \<in> set (open_folders h)" for f
  proof -
    from that all_ignored_paths_started(3) [OF ok] so
    obtain ps where ps: "fst (folder_ignored_paths h f) = Inr ps" by blast
    from folder_ignored_paths_value(1) [OF ps] show ?thesis
      by (simp add: ps so)
  qed
  from all_ignored_paths_started(1) [OF ok] have
    "set paths = (\<Union>f\<in>set (open_folders h). set (projr (fst (folder_ignored_paths h f))))"
    by (simp add: so)
  with folder show ?thesis by simp
qed

lemma two_in_filter:
  assumes "a \<in> set xs" "b \<in> set xs" "a \<noteq> b" "P a" "P b"
  shows "2 \<le> length (filter P xs)"
proof -
  have "{a, b} \<subseteq> set (filter P xs)" using assms by simp
  then have "card {a, b} \<le> card (set (filter P xs))"
    by (intro card_mono) simp_all
  also have "\<dots> \<le> length (filter P xs)" by (rule card_length)
  finally show ?thesis using assms(3) by simp
qed

lemma count_list_filter_distinct:
  "distinct xs \<Longrightarrow> count_list (filter P xs) y = (if y \<in> set xs \<and> P y then 1 else 0)"
  by (induction xs) auto

subsection \<open>Claims about the union over the watched folders\<close>

text \<open>
  C5, as stated, fails: the folders \<open>/r/a\<close> and \<open>/r/b\<close> both resolve to the repository
  \<open>/r\<close>; the pass runs the enumeration in \<open>/r\<close> twice, once for each folder, and with
  \<open>/r/x.log\<close> stored before the pass the saved list holds \<open>/r/x.log\<close> twice.
\<close>

theorem C5_shared_repo_listed_twice:
  "fst (is_in_git_repo shared_repo_host (str ''/r/a'')) = Inr True \<and>
   fst (is_in_git_repo shared_repo_host (str ''/r/b'')) = Inr True \<and>
   fst (parent_repo_path shared_repo_host (str ''/r/a'')) = Inr (str ''/r'') \<and>
   fst (parent_repo_path shared_repo_host (str ''/r/b'')) = Inr (str ''/r'') \<and>
   count_list
     (started (update_file_exclude_patterns shared_repo_host
        [''binary_file_patterns'' \<mapsto> [str ''/r/x.log'']]))
     ([''git'', ''clean'', ''-ndX''], str ''/r'') = 2 \<and>
   stored_patterns (prefs (update_file_exclude_patterns shared_repo_host
        [''binary_file_patterns'' \<mapsto> [str ''/r/x.log'']]))
     = [str ''/r/x.log'', str ''/r/x.log'', str ''/r/y.log''] \<and>
   count_list
     (stored_patterns (prefs (update_file_exclude_patterns shared_repo_host
        [''binary_file_patterns'' \<mapsto> [str ''/r/x.log'']])))
     (str ''/r/x.log'') = 2"
proof -
  have neq: "str ''/r/y.log'' \<noteq> str ''/r/x.log''" "str ''/r/a'' \<noteq> str ''/r''"
      "str ''/r/b'' \<noteq> str ''/r''"
    by (simp_all add: str_def)
  have run: "fst (is_in_git_repo shared_repo_host f) = Inr True"
      "fst (parent_repo_path shared_repo_host f) = Inr (str ''/r'')" for f
    by (simp_all add: is_in_git_repo_eval parent_repo_path_eval shared_repo_host_def
        str_defs dec_defs)
  show ?thesis
    using neq by (simp add: run shared_repo_pass shared_repo_paths)
qed

text \<open>
  C5, amended.  When a pass has collected its paths, the list of them has no duplicates and
  holds exactly the paths reported for the repositories that the watched folders lead to;
  the enumeration is run in a repository once for every watched folder that leads to it, so
  at least twice when two watched folders do; and on a POSIX host a pass that saves has
  appended every ignored path that is no directory exactly once: it occurs in the saved
  list once more than in the list stored before.
\<close>

theorem C5_union_of_ignored_paths:
  "order_ok (set_order h) \<and> all_ignored_paths h = (Inr paths, l) \<longrightarrow>
     distinct paths \<and>
     set paths = (\<Union>f\<in>set (open_folders h). \<Union>r\<in>set (repos_of h f).
                    set (projr (fst (repo_ignored_paths h r)))) \<and>
     count_list l ([''git'', ''clean'', ''-ndX''], r) =
       length (filter (\<lambda>f. r \<in> set (repos_of h f)) (set_order h (open_folders h))) \<and>
     (f1 \<in> set (open_folders h) \<and> f2 \<in> set (open_folders h) \<and> f1 \<noteq> f2 \<and>
      r \<in> set (repos_of h f1) \<and> r \<in> set (repos_of h f2) \<longrightarrow>
        2 \<le> count_list l ([''git'', ''clean'', ''-ndX''], r)) \<and>
     (system h = Posix \<and> saved (update_file_exclude_patterns h s) \<and>
      q \<in> set paths \<and> \<not> isdir h q \<longrightarrow>
        count_list (stored_patterns (prefs (update_file_exclude_patterns h s))) q =
          count_list (stored_patterns s) q + 1)"
proof (intro impI, elim conjE)
  assume ord: "order_ok (set_order h)" and run: "all_ignored_paths h = (Inr paths, l)"
  then have ok: "fst (all_ignored_paths h) = Inr paths" and l: "snd (all_ignored_paths h) = l"
    by simp_all
  from ord have so: "set (set_order h xs) = set xs" "distinct (set_order h xs)" for xs
    by (simp_all add: order_ok_def)
  have d: "distinct paths"
    using all_ignored_paths_started(1) [OF ok] so(2) by simp
  have u: "set paths = (\<Union>f\<in>set (open_folders h). \<Union>r\<in>set (repos_of h f).
                    set (projr (fst (repo_ignored_paths h r))))"
    by (rule all_ignored_paths_set [OF ord ok])
  have c: "count_list l ([''git'', ''clean'', ''-ndX''], r) =
       length (filter (\<lambda>f. r \<in> set (repos_of h f)) (set_order h (open_folders h)))"
    using clean_count [OF ord ok, of r] l by simp
  have two: "2 \<le> count_list l ([''git'', ''clean'', ''-ndX''], r)"
    if "f1 \<in> set (open_folders h)" "f2 \<in> set (open_folders h)" "f1 \<noteq> f2"
       "r \<in> set (repos_of h f1)" "r \<in> set (repos_of h f2)"
    unfolding c using that by (intro two_in_filter [of f1 _ f2]) (simp_all add: so)
  have cnt: "count_list (stored_patterns (prefs (update_file_exclude_patterns h s))) q =
          count_list (stored_patterns s) q + 1"
    if "system h = Posix" "saved (update_file_exclude_patterns h s)" "q \<in> set paths" "\<not> isdir h q"
    using that d
    by (simp add: update_cases run extend_patterns_posix count_list_filter_distinct
        split: if_splits)
  from d u c two cnt
  show "distinct paths \<and>
     set paths = (\<Union>f\<in>set (open_folders h). \<Union>r\<in>set (repos_of h f).
                    set (projr (fst (repo_ignored_paths h r)))) \<and>
     count_list l ([''git'', ''clean'', ''-ndX''], r) =
       length (filter (\<lambda>f. r \<in> set (repos_of h f)) (set_order h (open_folders h))) \<and>
     (f1 \<in> set (open_folders h) \<and> f2 \<in> set (open_folders h) \<and> f1 \<noteq> f2 \<and>
      r \<in> set (repos_of h f1) \<and> r \<in> set (repos_of h f2) \<longrightarrow>
        2 \<le> count_list l ([''git'', ''clean'', ''-ndX''], r)) \<and>
     (system h = Posix \<and> saved (update_file_exclude_patterns h s) \<and>
      q \<in> set paths \<and> \<not> isdir h q \<longrightarrow>
        count_list (stored_patterns (prefs (update_file_exclude_patterns h s))) q =
          count_list (stored_patterns s) q + 1)"
    by blast
qed


lemma shared_repo_repos:
  "repos_of shared_repo_host f = [str ''/r'']"
  by (simp add: repos_of_def collect_repos_eval find_git_repos_def os_walk_def
      shared_repo_host_def str_defs dec_defs)

theorem C5_union_of_ignored_paths_witness:
  "order_ok (set_order shared_repo_host) \<and>
   all_ignored_paths shared_repo_host =
     (Inr [str ''/r/x.log'', str ''/r/y.log''], snd (all_ignored_paths shared_repo_host)) \<and>
   str ''/r'' \<in> set (repos_of shared_repo_host (str ''/r/a'')) \<and>
   str ''/r'' \<in> set (repos_of shared_repo_host (str ''/r/b'')) \<and>
   saved (update_file_exclude_patterns shared_repo_host Map.empty) \<and>
   2 \<le> count_list (snd (all_ignored_paths shared_repo_host))
          ([''git'', ''clean'', ''-ndX''], str ''/r'') \<and>
   count_list (stored_patterns (prefs (update_file_exclude_patterns shared_repo_host Map.empty)))
     (str ''/r/x.log'') = 1"
proof -
  have ord: "order_ok (set_order shared_repo_host)"
    by (simp add: shared_repo_host_def order_ok_remdups)
  have run: "all_ignored_paths shared_repo_host =
     (Inr [str ''/r/x.log'', str ''/r/y.log''], snd (all_ignored_paths shared_repo_host))"
    by (simp add: shared_repo_paths)
  have folders: "str ''/r/a'' \<in> set (open_folders shared_repo_host)"
      "str ''/r/b'' \<in> set (open_folders shared_repo_host)" "str ''/r/a'' \<noteq> str ''/r/b''"
    by (simp_all add: open_folders_def shared_repo_host_def str_def)
  have repos: "str ''/r'' \<in> set (repos_of shared_repo_host (str ''/r/a''))"
      "str ''/r'' \<in> set (repos_of shared_repo_host (str ''/r/b''))"
    by (simp_all add: shared_repo_repos)
  have sys: "system shared_repo_host = Posix" "\<not> isdir shared_repo_host (str ''/r/x.log'')"
    by (simp_all add: shared_repo_host_def)
  have sv: "saved (update_file_exclude_patterns shared_repo_host Map.empty)"
    by (simp add: shared_repo_pass)
  from C5_union_of_ignored_paths [of shared_repo_host "[str ''/r/x.log'', str ''/r/y.log'']"
      "snd (all_ignored_paths shared_repo_host)" "str ''/r''" "str ''/r/a''" "str ''/r/b''"
      Map.empty "str ''/r/x.log''"]
    ord run folders repos sys sv
  show ?thesis by simp
qed

subsection \<open>Claims about failing git commands\<close>

text \<open>
  C2, as stated, fails.  Without git the query of \<open>is_in_git_repo\<close> raises OSError and
  the pass ends with that exception.  With a git whose queries all exit with 128 the
  watched folder \<open>/work/app\<close> is in no repository, but \<open>collect_repos\<close> still gives
  the repository \<open>/work/app/lib\<close> that the walk found.
\<close>

theorem C2_missing_git_raises:
  "fst (is_in_git_repo no_git_host (str ''/work/app'')) = Inl OSError \<and>
   raised (update_file_exclude_patterns no_git_host Map.empty) = Some OSError \<and>
   fst (is_in_git_repo failing_git_host (str ''/work/app'')) = Inr False \<and>
   fst (collect_repos failing_git_host (str ''/work/app'')) = Inr [str ''/work/app/lib'']"
  by (simp add: update_file_exclude_patterns_def all_ignored_paths_def folder_ignored_paths_def
      collect_repos_eval is_in_git_repo_eval open_folders_def find_git_repos_def os_walk_def
      host_defs str_def posix_join_def)

lemma quiet_failure_paths:
  assumes ord: "order_ok (set_order h)"
    and quiet: "\<forall>argv cwd. \<exists>c. c \<noteq> 0 \<and> run h argv cwd = Exited c []"
  shows "fst (all_ignored_paths h) = Inr []"
proof -
  have nil: "set_order h [] = []"
    using ord by (rule order_ok_Nil)
  have repo: "repo_ignored_paths h r = (Inr [], [([''git'', ''clean'', ''-ndX''], r)])" for r
  proof -
    from quiet obtain c where "run h [''git'', ''clean'', ''-ndX''] r = Exited c []" by blast
    then show ?thesis
      by (simp add: repo_ignored_paths_eval parse_clean_output_def decode_utf8_ignore_def)
  qed
  have each: "fst (update_each xs (repo_ignored_paths h) []) = Inr []" for xs
    by (subst update_each_ok) (simp_all add: repo)
  have folder: "fst (folder_ignored_paths h f) = Inr []" for f
  proof -
    from quiet obtain c where
      "c \<noteq> 0" "run h [''git'', ''rev-parse'', ''--is-inside-work-tree''] f = Exited c []"
      by blast
    then have "collect_repos h f =
        (Inr (find_git_repos h f), [([''git'', ''rev-parse'', ''--is-inside-work-tree''], f)])"
      by (simp add: collect_repos_eval)
    then show ?thesis
      by (simp add: folder_ignored_paths_def bind_io_fst_Inr each nil)
  qed
  have "fst (update_each (set_order h (open_folders h)) (folder_ignored_paths h) []) = Inr []"
    by (subst update_each_ok) (simp_all add: folder)
  then show ?thesis
    by (simp add: all_ignored_paths_def bind_io_fst_Inr nil)
qed

lemma missing_git_paths:
  assumes ord: "order_ok (set_order h)"
    and missing: "\<forall>argv cwd. run h argv cwd = NotStarted"
    and watched: "open_folders h \<noteq> []"
  shows "fst (all_ignored_paths h) = Inl OSError"
proof -
  have "set (set_order h (open_folders h)) = set (open_folders h)"
    using ord by (simp add: order_ok_def)
  with watched have ne: "set_order h (open_folders h) \<noteq> []"
    by (metis set_empty)
  have "fst (folder_ignored_paths h f) = Inl OSError" for f
    using missing by (simp add: folder_ignored_paths_def collect_repos_eval)
  then have "update_each (set_order h (open_folders h)) (folder_ignored_paths h) [] =
      (Inl OSError, snd (folder_ignored_paths h (hd (set_order h (open_folders h)))))"
    using ne by (intro update_each_raises) simp_all
  then show ?thesis
    by (simp add: all_ignored_paths_def)
qed

text \<open>
  C2, amended.  When the query whether a folder is in a work tree exits with a code other
  than 0, the folder has no enclosing repository and its repositories are those the walk
  finds; an enumeration that prints nothing gives no path; when every git command exits
  with a code other than 0 and prints nothing, the pass ends without an exception and
  without a save, the settings as they were.  When no git command can be started and a
  folder is watched, the query raises OSError and the pass ends with it, also without a
  save and with the settings as they were.
\<close>

theorem C2_git_failures:
  "(run h [''git'', ''rev-parse'', ''--is-inside-work-tree''] folder = Exited c out \<and> c \<noteq> 0 \<longrightarrow>
      fst (is_in_git_repo h folder) = Inr False \<and>
      fst (collect_repos h folder) = Inr (find_git_repos h folder)) \<and>
   (run h [''git'', ''clean'', ''-ndX''] git_repo = Exited c' [] \<longrightarrow>
      fst (repo_ignored_paths h git_repo) = Inr []) \<and>
   (order_ok (set_order h) \<and> (\<forall>argv cwd. \<exists>c. c \<noteq> 0 \<and> run h argv cwd = Exited c []) \<longrightarrow>
      raised (update_file_exclude_patterns h s) = None \<and>
      \<not> saved (update_file_exclude_patterns h s) \<and>
      prefs (update_file_exclude_patterns h s) = s) \<and>
   (order_ok (set_order h') \<and> (\<forall>argv cwd. run h' argv cwd = NotStarted) \<and> open_folders h' \<noteq> [] \<longrightarrow>
      fst (is_in_git_repo h' folder) = Inl OSError \<and>
      raised (update_file_exclude_patterns h' s) = Some OSError \<and>
      \<not> saved (update_file_exclude_patterns h' s) \<and>
      prefs (update_file_exclude_patterns h' s) = s)"
proof -
  have a: "fst (is_in_git_repo h folder) = Inr False \<and>
      fst (collect_repos h folder) = Inr (find_git_repos h folder)"
    if "run h [''git'', ''rev-parse'', ''--is-inside-work-tree''] folder = Exited c out" "c \<noteq> 0"
    using that by (simp add: is_in_git_repo_eval collect_repos_eval)
  have b: "fst (repo_ignored_paths h git_repo) = Inr []"
    if "run h [''git'', ''clean'', ''-ndX''] git_repo = Exited c' []"
    using that by (simp add: repo_ignored_paths_eval parse_clean_output_def decode_utf8_ignore_def)
  have c: "raised (update_file_exclude_patterns h s) = None \<and>
      \<not> saved (update_file_exclude_patterns h s) \<and>
      prefs (update_file_exclude_patterns h s) = s"
    if "order_ok (set_order h)" "\<forall>argv cwd. \<exists>c. c \<noteq> 0 \<and> run h argv cwd = Exited c []"
    using quiet_failure_paths [OF that]
    by (cases "all_ignored_paths h") (simp add: update_cases)
  have d: "fst (is_in_git_repo h' folder) = Inl OSError \<and>
      raised (update_file_exclude_patterns h' s) = Some OSError \<and>
      \<not> saved (update_file_exclude_patterns h' s) \<and>
      prefs (update_file_exclude_patterns h' s) = s"
    if "order_ok (set_order h')" "\<forall>argv cwd. run h' argv cwd = NotStarted" "open_folders h' \<noteq> []"
    using missing_git_paths [OF that] that(2)
    by (cases "all_ignored_paths h'") (simp add: update_cases is_in_git_repo_eval)
  from a b c d show ?thesis by blast
qed

theorem C2_git_failures_witness:
  "fst (collect_repos failing_git_host (str ''/work/app'')) =
     Inr (find_git_repos failing_git_host (str ''/work/app'')) \<and>
   fst (repo_ignored_paths failing_git_host (str ''/work/app/lib'')) = Inr [] \<and>
   \<not> saved (update_file_exclude_patterns failing_git_host Map.empty) \<and>
   raised (update_file_exclude_patterns failing_git_host Map.empty) = None \<and>
   raised (update_file_exclude_patterns no_git_host Map.empty) = Some OSError"
  using C2_git_failures [of failing_git_host "str ''/work/app''" 128 "[]" "str ''/work/app/lib''"
      128 Map.empty no_git_host]
  by (simp add: host_defs order_ok_remdups open_folders_def)

end
